theory Spec2Isabelle
  imports Main "HOL-Library.Word"
begin

section \<open>NowMesh.h: constants and data\<close>

text \<open>
  The three capacities of NowMesh.h. \<open>STORED_MESSAGES\<close> is the length of the static
  array \<open>message_store\<close>, \<open>MAX_PEERS\<close> the length of the local array
  \<open>peer_store\<close> of a discovery cycle, \<open>MAX_MSG_LEN\<close> the size of the frame buffers.
\<close>

definition STORED_MESSAGES :: nat where
  "STORED_MESSAGES = 10"

definition MAX_PEERS :: nat where
  "MAX_PEERS = 10"

definition MAX_MSG_LEN :: nat where
  "MAX_MSG_LEN = 65"

text \<open>
  A hardware address is \<open>uint8_t[6]\<close>. The source compares addresses with
  \<open>memcmp(a, b, 6) == 0\<close>, which is equality of the six bytes.
\<close>

datatype mac = MAC "8 word" "8 word" "8 word" "8 word" "8 word" "8 word"

fun mac_nth :: "mac \<Rightarrow> nat \<Rightarrow> 8 word" where
  "mac_nth (MAC a b c d e f) i =
     (if i = 0 then a else if i = 1 then b else if i = 2 then c
      else if i = 3 then d else if i = 4 then e else f)"

fun mac_upd :: "mac \<Rightarrow> nat \<Rightarrow> 8 word \<Rightarrow> mac" where
  "mac_upd (MAC a b c d e f) i v =
     (if i = 0 then MAC v b c d e f else if i = 1 then MAC a v c d e f
      else if i = 2 then MAC a b v d e f else if i = 3 then MAC a b c v e f
      else if i = 4 then MAC a b c d v f else MAC a b c d e v)"

definition zero_mac :: mac where
  "zero_mac = MAC 0 0 0 0 0 0"

text \<open>\<open>struct message_info\<close>; the field \<open>id\<close> is written \<open>msg_id\<close> here.\<close>

record message_info =
  originator :: mac
  sender :: mac
  msg_id :: "16 word"

text \<open>\<open>struct peer_info\<close>, with its default member initialisers as \<open>empty_peer\<close>.
  The score is an \<open>int16_t\<close>; \<open>ap_score_bounds\<close> below shows that it stays within
  0..328, so that it never wraps and is read as an integer.\<close>

record peer_info =
  mac :: mac
  score :: int

definition empty_peer :: peer_info where
  "empty_peer = \<lparr>mac = zero_mac, score = 0\<rparr>"

text \<open>The fields of the SDK's \<open>struct bss_info\<close> that the discovery callback reads;
  \<open>rssi\<close> is a signed byte.\<close>

record bss_info =
  ssid :: string
  bssid :: mac
  rssi :: "8 word"

datatype STATUS = OK | FAIL | PENDING | BUSY | CANCEL

section \<open>The wire format\<close>

subsection \<open>Printing: the \<open>%u\<close> and \<open>%s\<close> conversions of sprintf\<close>

definition digit_char :: "nat \<Rightarrow> char" where
  "digit_char d = char_of (48 + d)"

fun dec :: "nat \<Rightarrow> string" where
  "dec n = (if n < 10 then [digit_char n] else dec (n div 10) @ [digit_char (n mod 10)])"

declare dec.simps [simp del]

text \<open>A C string ends at its first NUL byte.\<close>

definition c_str :: "string \<Rightarrow> string" where
  "c_str s = takeWhile (\<lambda>c. c \<noteq> CHR 0x00) s"

definition mac_fields :: "mac \<Rightarrow> string" where
  "mac_fields m =
     dec (unat (mac_nth m 0)) @ '','' @ dec (unat (mac_nth m 1)) @ '','' @
     dec (unat (mac_nth m 2)) @ '','' @ dec (unat (mac_nth m 3)) @ '','' @
     dec (unat (mac_nth m 4)) @ '','' @ dec (unat (mac_nth m 5))"

text \<open>
  The frame buffers of the source, \<open>char data[MAX_MSG_LEN]\<close> in sendBroadcast and
  sendTargeted and \<open>char received_buffer[MAX_MSG_LEN]\<close> in receiveData, are filled by
  \<open>sprintf\<close> and \<open>strcpy\<close>, which write the characters of a C string and the NUL
  that ends it and do not look at the size of the buffer. A string of \<open>MAX_MSG_LEN\<close> or
  more characters overruns the buffer; what the program does from there on is undefined,
  and the model stops with the fault \<open>BufferOverflow\<close>.
\<close>

datatype fault = BufferOverflow

definition write_buffer :: "string \<Rightarrow> fault + string" where
  "write_buffer s = (if length s + 1 \<le> MAX_MSG_LEN then Inr s else Inl BufferOverflow)"

text \<open>The characters that the format of sendBroadcast produces:
  \<open>"1,%u,%u,%u,%u,%u,%u,0,0,0,0,0,0,%u,%s"\<close>.\<close>

definition broadcast_text :: "string \<Rightarrow> mac \<Rightarrow> 16 word \<Rightarrow> string" where
  "broadcast_text message orig message_id =
     ''1,'' @ mac_fields orig @ '',0,0,0,0,0,0,'' @ dec (unat message_id) @ '','' @ c_str message"

text \<open>The buffer \<open>data\<close> of sendBroadcast after \<open>sprintf(data, ...)\<close> (lines 153-163).\<close>

definition broadcast_data :: "string \<Rightarrow> mac \<Rightarrow> 16 word \<Rightarrow> fault + string" where
  "broadcast_data message orig message_id =
     write_buffer (broadcast_text message orig message_id)"

text \<open>The characters that the format of sendTargeted produces:
  \<open>"2,%u,%u,%u,%u,%u,%u,%u,%u,%u,%u,%u,%u,%u,%s"\<close>.\<close>

definition targeted_text :: "string \<Rightarrow> mac \<Rightarrow> mac \<Rightarrow> 16 word \<Rightarrow> string" where
  "targeted_text message orig targ message_id =
     ''2,'' @ mac_fields orig @ '','' @ mac_fields targ @ '','' @
     dec (unat message_id) @ '','' @ c_str message"

text \<open>The buffer \<open>data\<close> of sendTargeted after \<open>sprintf(data, ...)\<close> (lines 171-187).\<close>

definition targeted_data :: "string \<Rightarrow> mac \<Rightarrow> mac \<Rightarrow> 16 word \<Rightarrow> fault + string" where
  "targeted_data message orig targ message_id =
     write_buffer (targeted_text message orig targ message_id)"

subsection \<open>Parsing: \<open>String::toInt\<close> and \<open>strtok\<close>\<close>

text \<open>
  \<open>String(token).toInt()\<close> is \<open>atol\<close>: leading white space is skipped, an optional sign
  is read, then decimal digits up to the first other character; no digits give 0. A value
  outside the 32-bit \<open>long\<close> is clamped, as the C library's \<open>strtol\<close> does. The result
  is then narrowed to the \<open>uint8_t\<close> or \<open>uint16_t\<close> it is assigned to.
\<close>

definition isspace :: "char \<Rightarrow> bool" where
  "isspace c = (c = CHR '' '' \<or> (9 \<le> (of_char c :: nat) \<and> (of_char c :: nat) \<le> 13))"

definition isdigit :: "char \<Rightarrow> bool" where
  "isdigit c = (48 \<le> (of_char c :: nat) \<and> (of_char c :: nat) \<le> 57)"

fun digits_value :: "int \<Rightarrow> string \<Rightarrow> int" where
  "digits_value acc [] = acc"
| "digits_value acc (c # cs) =
     (if isdigit c then digits_value (acc * 10 + (int (of_char c) - 48)) cs else acc)"

definition clamp_long :: "int \<Rightarrow> int" where
  "clamp_long v = max (- (2 ^ 31)) (min (2 ^ 31 - 1) v)"

definition toInt :: "string \<Rightarrow> int" where
  "toInt s =
     (case dropWhile isspace s of
        [] \<Rightarrow> 0
      | c # cs \<Rightarrow>
          if c = CHR ''-'' then clamp_long (- digits_value 0 cs)
          else if c = CHR ''+'' then clamp_long (digits_value 0 cs)
          else clamp_long (digits_value 0 (c # cs)))"

text \<open>
  The tokens that the calls \<open>strtok(received_buffer, ",")\<close>, \<open>strtok(NULL, ",")\<close>, ...
  return until NULL: each call skips the separators in front, and the token runs to the
  next separator or the end of the string. An empty field is therefore no token.
\<close>

function strtok_all :: "string \<Rightarrow> string list" where
  "strtok_all s =
     (if dropWhile (\<lambda>c. c = CHR '','') s = [] then []
      else takeWhile (\<lambda>c. c \<noteq> CHR '','') (dropWhile (\<lambda>c. c = CHR '','') s) #
           strtok_all (dropWhile (\<lambda>c. c \<noteq> CHR '','') (dropWhile (\<lambda>c. c = CHR '','') s)))"
  by pat_completeness auto
termination
proof (relation "measure length")
  show "wf (measure length)" by simp
next
  fix s :: string
  assume ne: "dropWhile (\<lambda>c. c = CHR '','') s \<noteq> []"
  then obtain x xs where c: "dropWhile (\<lambda>c. c = CHR '','') s = x # xs"
    by (cases "dropWhile (\<lambda>c. c = CHR '','') s") auto
  have "x \<noteq> CHR '',''"
    using hd_dropWhile [OF ne] c by simp
  then have "length (dropWhile (\<lambda>c. c \<noteq> CHR '','') (x # xs)) \<le> length xs"
    by (simp add: length_dropWhile_le)
  moreover have "length (x # xs) \<le> length s"
    using length_dropWhile_le [of "\<lambda>c. c = CHR '',''" s] c by simp
  ultimately show
    "(dropWhile (\<lambda>c. c \<noteq> CHR '','') (dropWhile (\<lambda>c. c = CHR '','') s), s) \<in> measure length"
    using c by simp
qed

declare strtok_all.simps [simp del]

text \<open>
  The local variables of receiveData that the token loop fills. They start indeterminate
  in the source; they are read only after \<open>pos = 15\<close> has been checked, when the loop has
  assigned every one of them, so the initial value \<open>no_frame\<close> is never observed.
\<close>

record frame =
  message_type :: "8 word"
  frame_originator :: mac
  target :: mac
  message_id :: "16 word"
  message :: string

definition no_frame :: frame where
  "no_frame = \<lparr>message_type = 0, frame_originator = zero_mac, target = zero_mac,
                 message_id = 0, message = []\<rparr>"

text \<open>One round of the \<open>while (token != NULL)\<close> loop: the \<open>switch (pos)\<close>, then
  \<open>pos++\<close>.\<close>

definition store_token :: "nat \<times> frame \<Rightarrow> string \<Rightarrow> nat \<times> frame" where
  "store_token pf token =
     (let pos = fst pf; f = snd pf in
      (pos + 1,
       if pos = 0 then f\<lparr>message_type := word_of_int (toInt token)\<rparr>
       else if 1 \<le> pos \<and> pos \<le> 6 then
         f\<lparr>frame_originator := mac_upd (frame_originator f) (pos - 1) (word_of_int (toInt token))\<rparr>
       else if 7 \<le> pos \<and> pos \<le> 12 then
         f\<lparr>target := mac_upd (target f) (pos - 7) (word_of_int (toInt token))\<rparr>
       else if pos = 13 then f\<lparr>message_id := word_of_int (toInt token)\<rparr>
       else if pos = 14 then f\<lparr>message := token\<rparr>
       else f))"

text \<open>
  \<open>String(reinterpret_cast<char*>(data)).substring(0, len)\<close>: the bytes at \<open>data\<close> up
  to the first NUL, cut to \<open>len\<close>. \<open>data\<close> stands for the memory from the pointer on.
\<close>

definition received_message :: "string \<Rightarrow> 8 word \<Rightarrow> string" where
  "received_message data len = take (unat len) (c_str data)"

datatype bad_message = TooLong | TooManyTokens

text \<open>
  Lines 208-287 of receiveData: the length check, the copy of the received string into
  \<open>received_buffer\<close> (\<open>strcpy\<close>, line 228), the token loop on that buffer and the
  check of the token count. The length check lets \<open>len = MAX_MSG_LEN\<close> pass; a received
  string of that many characters then overruns the buffer.
\<close>

definition decode :: "string \<Rightarrow> 8 word \<Rightarrow> fault + bad_message + frame" where
  "decode data len =
     (if unat len > MAX_MSG_LEN then Inr (Inl TooLong)
      else
        (case write_buffer (received_message data len) of
           Inl overrun \<Rightarrow> Inl overrun
         | Inr received_buffer \<Rightarrow>
             (let pf = foldl store_token (0, no_frame) (strtok_all received_buffer) in
              if fst pf \<noteq> 15 then Inr (Inl TooManyTokens) else Inr (Inr (snd pf)))))"

section \<open>The node\<close>

text \<open>
  The state that the code changes: the static array \<open>message_store\<close> (zero-initialised),
  the member \<open>last_message_id\<close>, and the peer list that the radio library keeps
  (\<open>esp_now_add_peer\<close>, \<open>esp_now_del_peer\<close>, \<open>esp_now_is_peer_exist\<close>). \<open>self\<close>
  is the address that \<open>wifi_get_macaddr\<close> reports. \<open>past_store\<close> is whatever the memory
  right after \<open>message_store[STORED_MESSAGES - 1]\<close> holds, read as a \<open>message_info\<close>:
  the route scan of sendTargeted can read it.
\<close>

record node =
  self :: mac
  message_store :: "message_info list"
  past_store :: message_info
  peers :: "mac list"
  last_message_id :: "16 word"

definition empty_message :: message_info where
  "empty_message = \<lparr>originator = zero_mac, sender = zero_mac, msg_id = 0\<rparr>"

definition boot :: "mac \<Rightarrow> message_info \<Rightarrow> node" where
  "boot me past =
     \<lparr>self = me, message_store = replicate STORED_MESSAGES empty_message,
      past_store = past, peers = [], last_message_id = 0\<rparr>"

text \<open>What the node does to the outside: a call of \<open>esp_now_send\<close> (target \<open>None\<close> is
  the NULL pointer, which sends to all peers) and a call of the user's receive callback.\<close>

datatype event =
  SendMessage "mac option" string
| ReceiveCallback string bool mac

subsection \<open>The message store\<close>

text \<open>An index into an array of the source: \<open>None\<close> outside the array.\<close>

definition lookup :: "'a list \<Rightarrow> nat \<Rightarrow> 'a option" where
  "lookup xs i = (if i < length xs then Some (xs ! i) else None)"

text \<open>
  Lines 296-303 of receiveData, the scan for an entry with the message's id and
  originator. \<open>None\<close> is the \<open>return\<close> inside the loop ("Message is already stored"),
  \<open>Some msg_i\<close> the value of \<open>msg_i\<close> when the loop ends. The guard tests
  \<open>msg_i < STORED_MESSAGES\<close> first, so the array is read inside its bounds.
\<close>

function find_stored :: "message_info list \<Rightarrow> mac \<Rightarrow> 16 word \<Rightarrow> nat \<Rightarrow> nat option" where
  "find_stored store orig mid msg_i =
     (if msg_i < STORED_MESSAGES \<and> 0 < msg_id (store ! msg_i) then
        (if msg_id (store ! msg_i) = mid \<and> originator (store ! msg_i) = orig then None
         else find_stored store orig mid (msg_i + 1))
      else Some msg_i)"
  by pat_completeness auto
termination
  by (relation "measure (\<lambda>(store, orig, mid, msg_i). STORED_MESSAGES - msg_i)") auto

declare find_stored.simps [simp del]

text \<open>Lines 312-316: \<open>for (; msg_i > 0; msg_i--) message_store[msg_i] = message_store[msg_i - 1]\<close>.\<close>

fun shift_back :: "message_info list \<Rightarrow> nat \<Rightarrow> message_info list" where
  "shift_back store 0 = store"
| "shift_back store (Suc k) = shift_back (store[Suc k := store ! k]) k"

text \<open>Lines 294-320 together: \<open>None\<close> when the message is already stored, else the
  store with the message written at index 0.\<close>

definition store_message ::
  "message_info list \<Rightarrow> mac \<Rightarrow> mac \<Rightarrow> 16 word \<Rightarrow> message_info list option" where
  "store_message store orig from mid =
     (case find_stored store orig mid 0 of
        None \<Rightarrow> None
      | Some msg_i \<Rightarrow>
          Some ((shift_back store (if msg_i = STORED_MESSAGES then msg_i - 1 else msg_i))
                  [0 := \<lparr>originator = orig, sender = from, msg_id = mid\<rparr>]))"

subsection \<open>Sending\<close>

text \<open>sendMessage hands \<open>strlen(data)\<close> bytes to \<open>esp_now_send\<close>.\<close>

definition sendMessage :: "mac option \<Rightarrow> string \<Rightarrow> event list" where
  "sendMessage targ data = [SendMessage targ (c_str data)]"

definition sendBroadcast :: "string \<Rightarrow> mac \<Rightarrow> 16 word \<Rightarrow> fault + event list" where
  "sendBroadcast msg orig mid =
     (case broadcast_data msg orig mid of
        Inl overrun \<Rightarrow> Inl overrun
      | Inr data \<Rightarrow> Inr (sendMessage None data))"

text \<open>
  The loop of sendTargeted (lines 189-199). Its guard is
  \<open>message_store[i].id > 0 && i < STORED_MESSAGES\<close>: the array is read before the index
  is tested. \<open>read_store\<close> is that read; at an index outside the array it yields
  \<open>past_store\<close>. The scan returns the indices at which the guard has read the array, in
  order, and the neighbour to send to (\<open>None\<close>: no route, the frame goes to all peers).
\<close>

definition read_store :: "message_info \<Rightarrow> message_info list \<Rightarrow> nat \<Rightarrow> message_info" where
  "read_store past store i = (case lookup store i of Some e \<Rightarrow> e | None \<Rightarrow> past)"

function route_scan ::
  "message_info \<Rightarrow> message_info list \<Rightarrow> mac list \<Rightarrow> mac \<Rightarrow> nat \<Rightarrow> nat list \<times> mac option" where
  "route_scan past store ps targ i =
     (if 0 < msg_id (read_store past store i) \<and> i < STORED_MESSAGES then
        (if (originator (read_store past store i) = targ \<or> sender (read_store past store i) = targ)
            \<and> sender (read_store past store i) \<in> set ps
         then ([i], Some (sender (read_store past store i)))
         else apfst ((#) i) (route_scan past store ps targ (i + 1)))
      else ([i], None))"
  by pat_completeness auto
termination
  by (relation "measure (\<lambda>(past, store, ps, targ, i). STORED_MESSAGES - i)") auto

declare route_scan.simps [simp del]

text \<open>sendTargeted fills the buffer first and scans for a route after that.\<close>

definition sendTargeted ::
  "node \<Rightarrow> string \<Rightarrow> mac \<Rightarrow> mac \<Rightarrow> 16 word \<Rightarrow> fault + event list" where
  "sendTargeted st msg orig targ mid =
     (case targeted_data msg orig targ mid of
        Inl overrun \<Rightarrow> Inl overrun
      | Inr data \<Rightarrow>
          Inr (sendMessage
                 (snd (route_scan (past_store st) (message_store st) (peers st) targ 0)) data))"


definition send_to :: "node \<Rightarrow> string \<Rightarrow> mac \<Rightarrow> fault + node \<times> event list" where
  "send_to st msg targ =
     (let st' = st\<lparr>last_message_id := last_message_id st + 1\<rparr>
      in case sendTargeted st' msg (self st') targ (last_message_id st') of
           Inl overrun \<Rightarrow> Inl overrun
         | Inr sent \<Rightarrow> Inr (st', sent))"

subsection \<open>Receiving\<close>

text \<open>Lines 328-334: the received message is sent on, by its type.\<close>

definition forward :: "node \<Rightarrow> frame \<Rightarrow> fault + event list" where
  "forward st f =
     (if message_type f = 1 then
        sendBroadcast (message f) (frame_originator f) (message_id f)
      else if message_type f = 2 then
        sendTargeted st (message f) (frame_originator f) (target f) (message_id f)
      else Inr [])"

text \<open>Lines 322-337: delivery to the user and forwarding, after the message has been
  stored.\<close>

definition deliver :: "node \<Rightarrow> frame \<Rightarrow> fault + event list" where
  "deliver st f =
     (if target f = self st then
        Inr [ReceiveCallback (message f) False (frame_originator f)]
      else
        (case forward st f of
           Inl overrun \<Rightarrow> Inl overrun
         | Inr sent \<Rightarrow> Inr (sent @ [ReceiveCallback (message f) True (frame_originator f)])))"

definition receiveData ::
  "node \<Rightarrow> mac \<Rightarrow> string \<Rightarrow> 8 word \<Rightarrow> fault + node \<times> event list" where
  "receiveData st from data len =
     (case decode data len of
        Inl overrun \<Rightarrow> Inl overrun
      | Inr (Inl bad) \<Rightarrow> Inr (st, [])
      | Inr (Inr f) \<Rightarrow>
          if frame_originator f = self st then Inr (st, [])
          else
            (case store_message (message_store st) (frame_originator f) from (message_id f) of
               None \<Rightarrow> Inr (st, [])
             | Some store' \<Rightarrow>
                 (case deliver (st\<lparr>message_store := store'\<rparr>) f of
                    Inl overrun \<Rightarrow> Inl overrun
                  | Inr events \<Rightarrow> Inr (st\<lparr>message_store := store'\<rparr>, events))))"

subsection \<open>Discovery\<close>

text \<open>Lines 69-76: the score of a scanned access point, from its signal strength and
  from the stored messages that came from it or through it.\<close>

definition ap_score :: "message_info list \<Rightarrow> bss_info \<Rightarrow> int" where
  "ap_score store ap =
     foldl (\<lambda>sc i. if bssid ap = originator (store ! i) \<or> bssid ap = sender (store ! i)
                    then sc + 20 else sc)
       (128 - \<bar>sint (rssi ap)\<bar>) [0..<STORED_MESSAGES]"

text \<open>Lines 79-93: the loop over \<open>peer_store\<close> that chooses the slot \<open>candidate\<close>
  (\<open>-1\<close>: none). The \<open>break\<close> is the branch that returns at once.\<close>

function find_candidate :: "peer_info list \<Rightarrow> int \<Rightarrow> nat \<Rightarrow> int \<Rightarrow> int \<Rightarrow> int" where
  "find_candidate peer_store sc i candidate worst_score =
     (if i < MAX_PEERS then
        (if \<not> (0 < score (peer_store ! i)) then int i
         else if score (peer_store ! i) < sc \<and> score (peer_store ! i) < worst_score then
           find_candidate peer_store sc (i + 1) (int i) (score (peer_store ! i))
         else find_candidate peer_store sc (i + 1) candidate worst_score)
      else candidate)"
  by pat_completeness auto
termination
  by (relation "measure (\<lambda>(peer_store, sc, i, candidate, worst_score). MAX_PEERS - i)") auto

declare find_candidate.simps [simp del]

text \<open>Lines 63-100: one scanned access point.\<close>

definition scan_ap :: "message_info list \<Rightarrow> peer_info list \<Rightarrow> bss_info \<Rightarrow> peer_info list" where
  "scan_ap store peer_store ap =
     (if take 4 (ssid ap) = ''ESP_'' then
        (let sc = ap_score store ap;
             candidate = find_candidate peer_store sc 0 (- 1) 0
         in if 0 \<le> candidate
            then peer_store[nat candidate := \<lparr>mac = bssid ap, score = sc\<rparr>]
            else peer_store)
      else peer_store)"

text \<open>Lines 105-111: the stored peers that are not yet radio peers are added.\<close>

definition add_peer :: "peer_info list \<Rightarrow> mac list \<Rightarrow> nat \<Rightarrow> mac list" where
  "add_peer peer_store ps i =
     (if 0 < score (peer_store ! i) then
        (if mac (peer_store ! i) \<in> set ps then ps else ps @ [mac (peer_store ! i)])
      else ps)"

text \<open>Lines 113-127: the radio peers whose address is in no slot of \<open>peer_store\<close> are
  deleted.\<close>

definition purge_peers :: "peer_info list \<Rightarrow> mac list \<Rightarrow> mac list" where
  "purge_peers peer_store ps =
     filter (\<lambda>p. list_ex (\<lambda>i. p = mac (peer_store ! i)) [0..<MAX_PEERS]) ps"

text \<open>The working set after the whole scan list (the tail queue \<open>arg\<close>).\<close>

definition scan_all :: "message_info list \<Rightarrow> bss_info list \<Rightarrow> peer_info list" where
  "scan_all store aps = foldl (scan_ap store) (replicate MAX_PEERS empty_peer) aps"

definition scanDoneCallback :: "node \<Rightarrow> bss_info list \<Rightarrow> STATUS \<Rightarrow> node" where
  "scanDoneCallback st arg status =
     (if status = OK then
        (let peer_store = scan_all (message_store st) arg
         in st\<lparr>peers := purge_peers peer_store
                          (foldl (add_peer peer_store) (peers st) [0..<MAX_PEERS])\<rparr>)
      else st)"

section \<open>Notions used in the lemmas and statements\<close>

text \<open>
  The slots of the message store that the scans of receiveData (line 297) and sendTargeted
  (line 189) look at: those before the first slot whose id is 0. This is not the whole
  ledger: a stored message with id 0, and every message stored behind it, is left out.
\<close>

definition scanned_slots :: "message_info list \<Rightarrow> message_info list" where
  "scanned_slots store = takeWhile (\<lambda>e. 0 < msg_id e) (take STORED_MESSAGES store)"

text \<open>The test of lines 191 and 194 on a stored message: it came from the target or
  through it, and the neighbour it was received from is still a radio peer.\<close>

definition gives_route :: "mac list \<Rightarrow> mac \<Rightarrow> message_info \<Rightarrow> bool" where
  "gives_route ps targ e =
     ((originator e = targ \<or> sender e = targ) \<and> sender e \<in> set ps)"


text \<open>
  The frame as it is put on the wire: sendBroadcast writes a frame of type 1 and
  sendTargeted a frame of type 2, as in the forwarding branch of receiveData.
  \<open>frame_text\<close> is the characters of the frame, \<open>encode\<close> the buffer that holds them.
\<close>

definition frame_text :: "frame \<Rightarrow> string" where
  "frame_text f =
     (if message_type f = 1 then broadcast_text (message f) (frame_originator f) (message_id f)
      else targeted_text (message f) (frame_originator f) (target f) (message_id f))"

definition encode :: "frame \<Rightarrow> fault + string" where
  "encode f =
     (if message_type f = 1 then broadcast_data (message f) (frame_originator f) (message_id f)
      else targeted_data (message f) (frame_originator f) (target f) (message_id f))"


section \<open>Inputs of the examples\<close>

definition mac_self :: mac where
  "mac_self = MAC 1 1 1 1 1 1"

definition mac_a :: mac where
  "mac_a = MAC 2 2 2 2 2 2"

definition mac_b :: mac where
  "mac_b = MAC 3 3 3 3 3 3"

definition mac_c :: mac where
  "mac_c = MAC 4 4 4 4 4 4"

text \<open>A node right after start: nothing stored, no peers.\<close>

definition fresh_node :: node where
  "fresh_node = boot mac_self empty_message"

text \<open>The message store after messages with the given ids, all from originator
  \<open>mac_a\<close> and received from neighbour \<open>mac_b\<close>, have gone through lines 294-320
  of receiveData one after the other, starting from the empty store.\<close>

definition stored_after :: "16 word list \<Rightarrow> message_info list" where
  "stored_after ids =
     foldl (\<lambda>store i. case store_message store mac_a mac_b i of
                          None \<Rightarrow> store | Some store' \<Rightarrow> store')
       (message_store fresh_node) ids"

text \<open>A node that has received ten messages, with ids 1 to 10.\<close>

definition full_node :: node where
  "full_node = fresh_node\<lparr>message_store := stored_after [1, 2, 3, 4, 5, 6, 7, 8, 9, 10]\<rparr>"

text \<open>A scan that finds a router and one ESP8266.\<close>

definition router_ap :: bss_info where
  "router_ap = \<lparr>ssid = ''HomeWifi'', bssid = MAC 7 7 7 7 7 7, rssi = - 20\<rparr>"

definition esp_ap :: bss_info where
  "esp_ap = \<lparr>ssid = ''ESP_0A1B2C'', bssid = MAC 9 9 9 9 9 9, rssi = - 60\<rparr>"

text \<open>Ten ESP8266 with signal strength -50 (score 78 each), and an eleventh with signal
  strength -10 (score 118).\<close>

definition ten_aps :: "bss_info list" where
  "ten_aps = map (\<lambda>i. \<lparr>ssid = ''ESP_0A'', bssid = MAC 9 9 9 9 9 i, rssi = - 50\<rparr>)
               [1, 2, 3, 4, 5, 6, 7, 8, 9, 10]"

definition strong_ap :: bss_info where
  "strong_ap = \<lparr>ssid = ''ESP_0B'', bssid = MAC 9 9 9 9 9 11, rssi = - 10\<rparr>"

text \<open>Frames from originator \<open>mac_a\<close>: two broadcasts with message id 0 and 5, a
  message for \<open>mac_c\<close> and a message for the node itself. The last frame is one that the
  node itself has sent.\<close>

definition frame_id0 :: string where
  "frame_id0 = ''1,2,2,2,2,2,2,0,0,0,0,0,0,0,hi''"

definition frame_id5 :: string where
  "frame_id5 = ''1,2,2,2,2,2,2,0,0,0,0,0,0,5,hi''"




text \<open>A frame with the largest message id, and a frame with an empty message.\<close>

definition long_id_frame :: frame where
  "long_id_frame = \<lparr>message_type = 2, frame_originator = mac_a, target = mac_c,
                     message_id = 65535, message = ''hi!''\<rparr>"

definition empty_payload_frame :: frame where
  "empty_payload_frame = \<lparr>message_type = 1, frame_originator = mac_a, target = zero_mac,
                           message_id = 5, message = []\<rparr>"

text \<open>A broadcast frame of exactly \<open>MAX_MSG_LEN\<close> = 65 characters: 28 characters
  before the message and a message of 37 characters.\<close>

definition wide_frame :: frame where
  "wide_frame = \<lparr>message_type = 1, frame_originator = mac_a, target = zero_mac,
                  message_id = 5, message = replicate 37 (CHR ''x'')\<rparr>"




text \<open>A node whose only radio peer is \<open>mac_b\<close>, after a discovery cycle that has found
  \<open>mac_b\<close>.\<close>

definition neighbour_ap :: bss_info where
  "neighbour_ap = \<lparr>ssid = ''ESP_030303'', bssid = mac_b, rssi = - 40\<rparr>"

definition peered_node :: node where
  "peered_node = scanDoneCallback fresh_node [neighbour_ap] OK"

text \<open>The node \<open>st\<close> with the given messages in the first slots of its store and
  the other slots empty.\<close>

definition with_store :: "node \<Rightarrow> message_info list \<Rightarrow> node" where
  "with_store st ms =
     st\<lparr>message_store := ms @ replicate (STORED_MESSAGES - length ms) empty_message\<rparr>"
section \<open>The wire format: what is sent is what is decoded\<close>

subsection \<open>Numbers\<close>

lemma of_char_digit_char: "d < 10 \<Longrightarrow> (of_char (digit_char d) :: nat) = 48 + d"
  by (simp add: digit_char_def)

lemma isdigit_digit_char: "d < 10 \<Longrightarrow> isdigit (digit_char d)"
  by (simp add: isdigit_def of_char_digit_char)

lemma dec_nonempty: "dec n \<noteq> []"
  by (subst dec.simps) simp

lemma dec_digits: "c \<in> set (dec n) \<Longrightarrow> isdigit c"
proof (induction n arbitrary: c rule: dec.induct)
  case (1 n)
  show ?case
  proof (cases "n < 10")
    case True
    with "1.prems" show ?thesis
      by (subst (asm) dec.simps) (simp add: isdigit_digit_char)
  next
    case False
    with "1.prems" have "c \<in> set (dec (n div 10)) \<or> c = digit_char (n mod 10)"
      by (subst (asm) dec.simps) auto
    then show ?thesis
      using "1.IH" [OF False] by (auto simp: isdigit_digit_char)
  qed
qed

lemma isdigit_plain:
  "isdigit c \<Longrightarrow>
   \<not> isspace c \<and> c \<noteq> CHR ''-'' \<and> c \<noteq> CHR ''+'' \<and> c \<noteq> CHR '','' \<and> c \<noteq> CHR 0x00"
  by (auto simp: isdigit_def isspace_def)

lemma dec_no_nul: "CHR 0x00 \<notin> set (dec n)"
  using dec_digits [of "CHR 0x00" n] isdigit_plain [of "CHR 0x00"] by auto

lemma digits_value_append:
  "\<forall>c \<in> set xs. isdigit c \<Longrightarrow>
   digits_value acc (xs @ ys) = digits_value (digits_value acc xs) ys"
  by (induction xs arbitrary: acc) simp_all

lemma digits_value_dec: "digits_value 0 (dec n) = int n"
proof (induction n rule: dec.induct)
  case (1 n)
  show ?case
  proof (cases "n < 10")
    case True
    then show ?thesis
      by (subst dec.simps) (simp add: isdigit_digit_char of_char_digit_char)
  next
    case False
    have "digits_value 0 (dec n) = digits_value 0 (dec (n div 10) @ [digit_char (n mod 10)])"
      using False by (subst dec.simps) simp
    also have "\<dots> = digits_value (int (n div 10)) [digit_char (n mod 10)]"
      using "1.IH" [OF False] by (simp add: digits_value_append dec_digits)
    also have "\<dots> = int (n div 10) * 10 + int (n mod 10)"
      by (simp add: isdigit_digit_char of_char_digit_char)
    also have "\<dots> = int n"
      by (simp add: zmod_int zdiv_int)
    finally show ?thesis .
  qed
qed

text \<open>A number below \<open>2 ^ 31\<close> that \<open>%u\<close> has printed is read back by \<open>toInt\<close>.\<close>

lemma toInt_dec: "n < 2 ^ 31 \<Longrightarrow> toInt (dec n) = int n"
proof -
  assume n: "n < 2 ^ 31"
  obtain c cs where d: "dec n = c # cs"
    using dec_nonempty [of n] by (cases "dec n") auto
  then have "isdigit c"
    using dec_digits [of c n] by simp
  then have p: "\<not> isspace c" "c \<noteq> CHR ''-''" "c \<noteq> CHR ''+''"
    using isdigit_plain by blast+
  have "toInt (dec n) = clamp_long (digits_value 0 (dec n))"
    using p unfolding toInt_def d by simp
  also have "\<dots> = int n"
    using n by (simp add: digits_value_dec clamp_long_def)
  finally show ?thesis .
qed

lemma byte_roundtrip: "word_of_int (toInt (dec (unat (w :: 8 word)))) = w"
proof -
  have "unat w < 2 ^ 8" using unsigned_less [of w] by simp
  then have "unat w < 2 ^ 31" by simp
  then show ?thesis by (simp add: toInt_dec)
qed

lemma id_roundtrip: "word_of_int (toInt (dec (unat (w :: 16 word)))) = w"
proof -
  have "unat w < 2 ^ 16" using unsigned_less [of w] by simp
  then have "unat w < 2 ^ 31" by simp
  then show ?thesis by (simp add: toInt_dec)
qed

lemma digit_chars:
  "digit_char 0 = CHR ''0''" "digit_char 1 = CHR ''1''" "digit_char 2 = CHR ''2''"
  "digit_char 3 = CHR ''3''" "digit_char 4 = CHR ''4''" "digit_char 5 = CHR ''5''"
  "digit_char 6 = CHR ''6''" "digit_char 7 = CHR ''7''" "digit_char 8 = CHR ''8''"
  "digit_char 9 = CHR ''9''"
  by code_simp+

lemma toInt_literals: "toInt ''0'' = 0" "toInt ''1'' = 1" "toInt ''2'' = 2"
  by (simp_all add: toInt_def isspace_def isdigit_def clamp_long_def)

subsection \<open>Tokens\<close>

lemma strtok_last:
  "t \<noteq> [] \<Longrightarrow> CHR '','' \<notin> set t \<Longrightarrow> strtok_all t = [t]"
proof -
  assume t: "t \<noteq> []" "CHR '','' \<notin> set t"
  then obtain x xs where c: "t = x # xs" by (cases t) auto
  have d: "dropWhile (\<lambda>c. c = CHR '','') t = t"
    using t c by auto
  have nc: "x \<noteq> CHR '',''" if "x \<in> set t" for x
    using that t by auto
  have tw: "takeWhile (\<lambda>c. c \<noteq> CHR '','') t = t" "dropWhile (\<lambda>c. c \<noteq> CHR '','') t = []"
    by (simp_all add: nc)
  have e: "strtok_all [] = []"
    by (subst strtok_all.simps) simp
  show ?thesis
    using t by (subst strtok_all.simps) (simp add: d tw e)
qed

lemma strtok_field:
  "t \<noteq> [] \<Longrightarrow> CHR '','' \<notin> set t \<Longrightarrow> strtok_all (t @ CHR '','' # rest) = t # strtok_all rest"
proof -
  assume t: "t \<noteq> []" "CHR '','' \<notin> set t"
  then obtain x xs where c: "t = x # xs" by (cases t) auto
  have d: "dropWhile (\<lambda>c. c = CHR '','') (t @ CHR '','' # rest) = t @ CHR '','' # rest"
    using t c by auto
  have nc: "x \<noteq> CHR '',''" if "x \<in> set t" for x
    using that t by auto
  have tw: "takeWhile (\<lambda>c. c \<noteq> CHR '','') (t @ CHR '','' # rest) = t"
    "dropWhile (\<lambda>c. c \<noteq> CHR '','') (t @ CHR '','' # rest) = CHR '','' # rest"
    by (simp_all add: nc)
  have r: "strtok_all (CHR '','' # rest) = strtok_all rest"
    by (subst strtok_all.simps, subst (2) strtok_all.simps) simp
  show ?thesis
    using t by (subst strtok_all.simps) (simp add: d tw r)
qed

lemma strtok_dec: "strtok_all (dec n @ CHR '','' # rest) = dec n # strtok_all rest"
  using dec_digits [of "CHR '',''" n] isdigit_plain [of "CHR '',''"]
  by (intro strtok_field dec_nonempty) auto

lemma strtok_char:
  "c \<noteq> CHR '','' \<Longrightarrow> strtok_all (c # CHR '','' # rest) = [c] # strtok_all rest"
  using strtok_field [of "[c]" rest] by simp

lemma c_str_plain: "CHR 0x00 \<notin> set s \<Longrightarrow> c_str s = s"
  by (simp add: c_str_def takeWhile_eq_all_conv) metis

lemma c_str_append: "CHR 0x00 \<notin> set xs \<Longrightarrow> c_str (xs @ ys) = xs @ c_str ys"
proof -
  assume "CHR 0x00 \<notin> set xs"
  then have "x \<noteq> CHR 0x00" if "x \<in> set xs" for x using that by auto
  then show ?thesis by (simp add: c_str_def)
qed

lemma tokens_broadcast:
  assumes "msg \<noteq> []" "CHR '','' \<notin> set msg" "CHR 0x00 \<notin> set msg"
  shows "strtok_all (broadcast_text msg (MAC a b c d e f) mid) =
     [''1'', dec (unat a), dec (unat b), dec (unat c), dec (unat d), dec (unat e), dec (unat f),
      ''0'', ''0'', ''0'', ''0'', ''0'', ''0'', dec (unat mid), msg]"
  using assms
  by (simp add: broadcast_text_def mac_fields_def c_str_plain strtok_dec strtok_char strtok_last)

lemma tokens_targeted:
  assumes "msg \<noteq> []" "CHR '','' \<notin> set msg" "CHR 0x00 \<notin> set msg"
  shows "strtok_all (targeted_text msg (MAC a b c d e f) (MAC a' b' c' d' e' f') mid) =
     [''2'', dec (unat a), dec (unat b), dec (unat c), dec (unat d), dec (unat e), dec (unat f),
      dec (unat a'), dec (unat b'), dec (unat c'), dec (unat d'), dec (unat e'), dec (unat f'),
      dec (unat mid), msg]"
  using assms
  by (simp add: targeted_text_def mac_fields_def c_str_plain strtok_dec strtok_char strtok_last)

subsection \<open>The token loop on the fifteen tokens of a frame\<close>

lemma parse_broadcast:
  "foldl store_token (0, no_frame)
     [''1'', dec (unat a), dec (unat b), dec (unat c), dec (unat d), dec (unat e), dec (unat f),
      ''0'', ''0'', ''0'', ''0'', ''0'', ''0'', dec (unat mid), msg] =
   (15, \<lparr>message_type = 1, frame_originator = MAC a b c d e f, target = zero_mac,
          message_id = mid, message = msg\<rparr>)"
  by (simp add: store_token_def no_frame_def zero_mac_def toInt_literals byte_roundtrip
      id_roundtrip)

lemma parse_targeted:
  "foldl store_token (0, no_frame)
     [''2'', dec (unat a), dec (unat b), dec (unat c), dec (unat d), dec (unat e), dec (unat f),
      dec (unat a'), dec (unat b'), dec (unat c'), dec (unat d'), dec (unat e'), dec (unat f'),
      dec (unat mid), msg] =
   (15, \<lparr>message_type = 2, frame_originator = MAC a b c d e f, target = MAC a' b' c' d' e' f',
          message_id = mid, message = msg\<rparr>)"
  by (simp add: store_token_def no_frame_def zero_mac_def toInt_literals byte_roundtrip
      id_roundtrip)

lemma broadcast_text_no_nul: "CHR 0x00 \<notin> set (broadcast_text msg orig mid)"
  by (auto simp: broadcast_text_def mac_fields_def c_str_def dec_no_nul dest: set_takeWhileD)

lemma targeted_text_no_nul: "CHR 0x00 \<notin> set (targeted_text msg orig targ mid)"
  by (auto simp: targeted_text_def mac_fields_def c_str_def dec_no_nul dest: set_takeWhileD)

lemma frame_text_no_nul: "CHR 0x00 \<notin> set (frame_text f)"
  by (simp add: frame_text_def broadcast_text_no_nul targeted_text_no_nul)

lemma encode_eq: "encode f = write_buffer (frame_text f)"
  by (simp add: encode_def frame_text_def broadcast_data_def targeted_data_def)

text \<open>The receiver gets the bytes of the frame and their number; what follows the frame
  in memory (\<open>rest\<close>) is cut off.\<close>

lemma received_encoded:
  assumes "length (frame_text f) < MAX_MSG_LEN"
  shows "received_message (frame_text f @ rest) (of_nat (length (frame_text f))) = frame_text f"
    and "unat (of_nat (length (frame_text f)) :: 8 word) = length (frame_text f)"
proof -
  show l: "unat (of_nat (length (frame_text f)) :: 8 word) = length (frame_text f)"
    using assms by (simp add: unat_of_nat MAX_MSG_LEN_def)
  show "received_message (frame_text f @ rest) (of_nat (length (frame_text f))) = frame_text f"
    unfolding received_message_def l
    using frame_text_no_nul [of f] by (simp add: c_str_append)
qed

text \<open>
  Claim C5, as stated, at two broadcast frames within the bounds of the claim. The first
  has an empty message (which contains no separator) and 28 characters: its last field is
  empty, so \<open>strtok\<close> returns 14 tokens and receiveData gives the frame up at the check
  \<open>pos != 15\<close>. The second has 65 characters, which is within \<open>MAX_MSG_LEN\<close>:
  \<open>sprintf\<close> overruns the buffer \<open>data\<close> of sendBroadcast with the NUL that ends the
  string, and so would \<open>strcpy\<close> the buffer of the receiver, which the length check of
  line 210 does not prevent.
\<close>

theorem C5_empty_payload_counterexample:
  "message_type empty_payload_frame = 1 \<and> target empty_payload_frame = zero_mac \<and>
   CHR '','' \<notin> set (message empty_payload_frame) \<and>
   length (frame_text empty_payload_frame) = 28 \<and>
   encode empty_payload_frame = Inr (frame_text empty_payload_frame) \<and>
   decode (frame_text empty_payload_frame) (of_nat (length (frame_text empty_payload_frame)))
     = Inr (Inl TooManyTokens) \<and>
   message_type wide_frame = 1 \<and> target wide_frame = zero_mac \<and>
   CHR '','' \<notin> set (message wide_frame) \<and>
   length (frame_text wide_frame) = 65 \<and>
   encode wide_frame = Inl BufferOverflow \<and>
   decode (frame_text wide_frame) (of_nat (length (frame_text wide_frame)))
     = Inl BufferOverflow"
  by code_simp

text \<open>
  Claim C5, amended. A frame of type 1 (Broadcast) with an all-zero target, or of type 2
  (Targeted), whose message is a C string (no NUL byte) that is not empty and contains no
  separator, and whose encoding has fewer than \<open>MAX_MSG_LEN\<close> characters (at most 64, so
  that it fits the buffers with the NUL that ends it), is encoded without overrunning the
  buffer and decoded to itself: the decoder, given the encoded bytes and their number,
  returns the frame with the same type, originator, target, message id and message. The
  originator and target bytes and the 16-bit message id are arbitrary.
\<close>

theorem C5_decode_encode:
  assumes "message_type f = 1 \<and> target f = zero_mac \<or> message_type f = 2"
    and "message f \<noteq> []"
    and "CHR '','' \<notin> set (message f)"
    and "CHR 0x00 \<notin> set (message f)"
    and "length (frame_text f) < MAX_MSG_LEN"
  shows "encode f = Inr (frame_text f) \<and>
         decode (frame_text f @ rest) (of_nat (length (frame_text f))) = Inr (Inr f)"
proof
  show "encode f = Inr (frame_text f)"
    using assms(5) by (simp add: encode_eq write_buffer_def)
next
  obtain a b c d e g where o: "frame_originator f = MAC a b c d e g"
    by (cases "frame_originator f") auto
  obtain a' b' c' d' e' g' where t: "target f = MAC a' b' c' d' e' g'"
    by (cases "target f") auto
  have len: "\<not> MAX_MSG_LEN < unat (of_nat (length (frame_text f)) :: 8 word)"
    using received_encoded(2) [OF assms(5)] assms(5) by simp
  have buf: "write_buffer (received_message (frame_text f @ rest)
                (of_nat (length (frame_text f)))) = Inr (frame_text f)"
    using assms(5) by (simp add: received_encoded(1) [OF assms(5)] write_buffer_def)
  from assms(1) show "decode (frame_text f @ rest) (of_nat (length (frame_text f))) = Inr (Inr f)"
  proof
    assume k: "message_type f = 1 \<and> target f = zero_mac"
    then have e: "frame_text f = broadcast_text (message f) (MAC a b c d e g) (message_id f)"
      by (simp add: frame_text_def o)
    have "strtok_all (frame_text f) =
      [''1'', dec (unat a), dec (unat b), dec (unat c), dec (unat d), dec (unat e), dec (unat g),
       ''0'', ''0'', ''0'', ''0'', ''0'', ''0'', dec (unat (message_id f)), message f]"
      using tokens_broadcast [OF assms(2,3,4)] by (simp only: e)
    then have "decode (frame_text f @ rest) (of_nat (length (frame_text f))) =
      Inr (Inr \<lparr>message_type = 1, frame_originator = MAC a b c d e g, target = zero_mac,
           message_id = message_id f, message = message f\<rparr>)"
      using len buf by (simp add: decode_def parse_broadcast del: foldl_Cons)
    then show ?thesis
      using k o by (cases f) simp
  next
    assume k: "message_type f = 2"
    then have e: "frame_text f = targeted_text (message f) (MAC a b c d e g)
        (MAC a' b' c' d' e' g') (message_id f)"
      by (simp add: frame_text_def o t)
    have "strtok_all (frame_text f) =
      [''2'', dec (unat a), dec (unat b), dec (unat c), dec (unat d), dec (unat e), dec (unat g),
       dec (unat a'), dec (unat b'), dec (unat c'), dec (unat d'), dec (unat e'), dec (unat g'),
       dec (unat (message_id f)), message f]"
      using tokens_targeted [OF assms(2,3,4)] by (simp only: e)
    then have "decode (frame_text f @ rest) (of_nat (length (frame_text f))) =
      Inr (Inr \<lparr>message_type = 2, frame_originator = MAC a b c d e g,
           target = MAC a' b' c' d' e' g',
           message_id = message_id f, message = message f\<rparr>)"
      using len buf by (simp add: decode_def parse_targeted del: foldl_Cons)
    then show ?thesis
      using k o t by (cases f) simp
  qed
qed

text \<open>A targeted frame with the largest message id, followed in memory by other bytes.\<close>

theorem C5_decode_encode_witness:
  "message_type long_id_frame = 2 \<and> message long_id_frame \<noteq> [] \<and>
   CHR '','' \<notin> set (message long_id_frame) \<and> CHR 0x00 \<notin> set (message long_id_frame) \<and>
   frame_text long_id_frame = ''2,2,2,2,2,2,2,4,4,4,4,4,4,65535,hi!'' \<and>
   length (frame_text long_id_frame) < MAX_MSG_LEN \<and>
   encode long_id_frame = Inr (frame_text long_id_frame) \<and>
   decode (frame_text long_id_frame @ ''xyz'') (of_nat (length (frame_text long_id_frame)))
     = Inr (Inr long_id_frame)"
proof -
  have h1: "message_type long_id_frame = 1 \<and> target long_id_frame = zero_mac \<or>
            message_type long_id_frame = 2"
    and h2: "message long_id_frame \<noteq> []"
    and h3: "CHR '','' \<notin> set (message long_id_frame)"
    and h4: "CHR 0x00 \<notin> set (message long_id_frame)"
    by (simp_all add: long_id_frame_def)
  have e: "frame_text long_id_frame = ''2,2,2,2,2,2,2,4,4,4,4,4,4,65535,hi!''"
    by (simp add: frame_text_def long_id_frame_def targeted_text_def mac_fields_def mac_a_def
        mac_c_def c_str_def dec.simps digit_chars)
  have h5: "length (frame_text long_id_frame) < MAX_MSG_LEN"
    unfolding e by (simp add: MAX_MSG_LEN_def)
  have k: "message_type long_id_frame = 2"
    by (simp add: long_id_frame_def)
  show ?thesis
    using C5_decode_encode [OF h1 h2 h3 h4 h5, of "''xyz''"] k h2 h3 h4 e h5 by simp
qed
section \<open>Malformed frames\<close>


subsection \<open>The tokens of \<open>strtok\<close> are the fields that are not empty\<close>








section \<open>The message store\<close>

lemma length_shift_back: "length (shift_back store k) = length store"
  by (induction k arbitrary: store) simp_all

text \<open>The shifting loop followed by the write at index 0: the new entry comes first, the
  entries before index \<open>k\<close> move back by one, and the entry at index \<open>k\<close> is lost.\<close>

lemma shift_back_eq:
  "k < length store \<Longrightarrow> (shift_back store k)[0 := x] = x # take k store @ drop (Suc k) store"
proof (induction k arbitrary: store)
  case 0
  then show ?case by (cases store) simp_all
next
  case (Suc k)
  let ?s = "store[Suc k := store ! k]"
  have "(shift_back store (Suc k))[0 := x] = (shift_back ?s k)[0 := x]" by simp
  also have "\<dots> = x # take k ?s @ drop (Suc k) ?s"
    using Suc.prems by (intro Suc.IH) simp
  also have "take k ?s = take k store" by simp
  also have "drop (Suc k) ?s = store ! k # drop (Suc (Suc k)) store"
    using Suc.prems by (simp add: drop_update_swap flip: Cons_nth_drop_Suc)
  also have "take k store @ store ! k # drop (Suc (Suc k)) store =
             take (Suc k) store @ drop (Suc (Suc k)) store"
    using Suc.prems by (simp add: take_Suc_conv_app_nth)
  finally show ?case .
qed

text \<open>The scan for a stored message looks at the slots up to the first one with id 0.\<close>

lemma find_stored_scanned:
  assumes "length store = STORED_MESSAGES" "i \<le> STORED_MESSAGES"
  shows "find_stored store orig mid i =
     (if list_ex (\<lambda>e. msg_id e = mid \<and> originator e = orig)
           (takeWhile (\<lambda>e. 0 < msg_id e) (drop i store))
      then None
      else Some (i + length (takeWhile (\<lambda>e. 0 < msg_id e) (drop i store))))"
  using assms
proof (induction store orig mid i rule: find_stored.induct)
  case (1 store orig mid msg_i)
  show ?case
  proof (cases "msg_i < STORED_MESSAGES")
    case True
    then have d: "drop msg_i store = store ! msg_i # drop (msg_i + 1) store"
      using "1.prems"(1) by (simp add: Cons_nth_drop_Suc)
    show ?thesis
    proof (cases "0 < msg_id (store ! msg_i)")
      case occ: True
      show ?thesis
      proof (cases "msg_id (store ! msg_i) = mid \<and> originator (store ! msg_i) = orig")
        case True
        then show ?thesis
          using \<open>msg_i < STORED_MESSAGES\<close> occ d by (subst find_stored.simps) simp
      next
        case False
        have "find_stored store orig mid msg_i = find_stored store orig mid (msg_i + 1)"
          using \<open>msg_i < STORED_MESSAGES\<close> occ False by (subst find_stored.simps) auto
        also have "\<dots> =
          (if list_ex (\<lambda>e. msg_id e = mid \<and> originator e = orig)
                (takeWhile (\<lambda>e. 0 < msg_id e) (drop (msg_i + 1) store))
           then None
           else Some (msg_i + 1 +
                      length (takeWhile (\<lambda>e. 0 < msg_id e) (drop (msg_i + 1) store))))"
          using "1.IH" \<open>msg_i < STORED_MESSAGES\<close> occ False "1.prems" by simp
        finally show ?thesis
          using occ False d by auto
      qed
    next
      case False
      then show ?thesis
        using d by (subst find_stored.simps) simp
    qed
  next
    case False
    then have "drop msg_i store = []"
      using "1.prems" by simp
    then show ?thesis
      using False by (subst find_stored.simps) simp
  qed
qed

lemma scanned_slots_full:
  "length store = STORED_MESSAGES \<Longrightarrow> scanned_slots store = takeWhile (\<lambda>e. 0 < msg_id e) store"
  by (simp add: scanned_slots_def)

lemma length_scanned_slots:
  "length store = STORED_MESSAGES \<Longrightarrow> length (scanned_slots store) \<le> STORED_MESSAGES"
  using length_takeWhile_le [of "\<lambda>e. 0 < msg_id e" store] by (simp add: scanned_slots_full)

text \<open>
  Lines 294-320 in one equation. A message whose id and originator are those of a scanned
  slot is not stored. Any other message is written in front; the scanned slots move back
  by one, and when all \<open>STORED_MESSAGES\<close> slots were scanned the last one is lost. A
  stored message with id 0 is no scanned slot: it is overwritten or hidden, not moved.
\<close>

lemma store_message_eq:
  assumes "length store = STORED_MESSAGES"
  shows "store_message store orig from mid =
     (if list_ex (\<lambda>e. msg_id e = mid \<and> originator e = orig) (scanned_slots store) then None
      else Some (\<lparr>originator = orig, sender = from, msg_id = mid\<rparr> #
                 take (min (length (scanned_slots store)) (STORED_MESSAGES - 1)) store @
                 drop (Suc (min (length (scanned_slots store)) (STORED_MESSAGES - 1))) store))"
proof -
  define k where "k = min (length (scanned_slots store)) (STORED_MESSAGES - 1)"
  have f: "find_stored store orig mid 0 =
     (if list_ex (\<lambda>e. msg_id e = mid \<and> originator e = orig) (scanned_slots store) then None
      else Some (length (scanned_slots store)))"
    using find_stored_scanned [OF assms, of 0 orig mid] assms by (simp add: scanned_slots_full)
  have kk: "(if length (scanned_slots store) = STORED_MESSAGES then length (scanned_slots store) - 1
             else length (scanned_slots store)) = k"
    using length_scanned_slots [OF assms] by (auto simp: min_def k_def)
  have lt: "k < length store"
    using assms by (simp add: STORED_MESSAGES_def k_def)
  have e: "(shift_back store k)[0 := new] = new # take k store @ drop (Suc k) store" for new
    by (rule shift_back_eq [OF lt])
  show ?thesis
    unfolding k_def [symmetric] store_message_def f using kk e by simp
qed

lemma store_message_length:
  assumes "length store = STORED_MESSAGES" "store_message store orig from mid = Some store'"
  shows "length store' = STORED_MESSAGES"
proof -
  have "min (length (scanned_slots store)) (STORED_MESSAGES - 1) < STORED_MESSAGES"
    by (simp add: STORED_MESSAGES_def)
  then show ?thesis
    using assms unfolding store_message_eq [OF assms(1)]
    by (auto split: if_splits)
qed

text \<open>A message with a nonzero id that has just been stored is found by the next scan,
  whichever neighbour brings it.\<close>

lemma stored_is_seen:
  assumes "length store = STORED_MESSAGES" "mid \<noteq> 0"
    and "store_message store orig from mid = Some store'"
  shows "store_message store' orig from' mid = None"
proof -
  have len': "length store' = STORED_MESSAGES"
    by (rule store_message_length [OF assms(1,3)])
  obtain rest where s: "store' = \<lparr>originator = orig, sender = from, msg_id = mid\<rparr> # rest"
    using assms(3) unfolding store_message_eq [OF assms(1)] by (auto split: if_splits)
  have "0 < mid"
    using assms(2) by (simp add: word_greater_zero_iff)
  moreover have "scanned_slots store' = takeWhile (\<lambda>e. 0 < msg_id e) store'"
    by (rule scanned_slots_full [OF len'])
  ultimately have "list_ex (\<lambda>e. msg_id e = mid \<and> originator e = orig) (scanned_slots store')"
    by (simp add: s)
  then show ?thesis
    unfolding store_message_eq [OF len'] by simp
qed

text \<open>When every slot holds a nonzero id, a message that is not stored yet takes the
  front and exactly the last entry, the oldest, is lost.\<close>

lemma full_store_loses_last:
  assumes "length store = STORED_MESSAGES" "\<forall>e \<in> set store. 0 < msg_id e"
    and "\<not> list_ex (\<lambda>e. msg_id e = mid \<and> originator e = orig) store"
  shows "store_message store orig from mid =
           Some (\<lparr>originator = orig, sender = from, msg_id = mid\<rparr> # butlast store)"
proof -
  have e: "scanned_slots store = store"
    using assms(2) unfolding scanned_slots_full [OF assms(1)] by (simp add: takeWhile_eq_all_conv)
  have "take (STORED_MESSAGES - 1) store = butlast store"
    using assms(1) by (simp add: butlast_conv_take)
  then show ?thesis
    using assms(1,3) unfolding store_message_eq [OF assms(1)] e by simp
qed

text \<open>
  Claim C1, evaluated on the code. A fresh node receives the broadcast frame
  \<open>frame_id0\<close>, whose message id is 0, from neighbour \<open>mac_b\<close> and then again from
  neighbour \<open>mac_c\<close>. The claim has the second receipt dropped as already seen. The code
  stores the message with id 0, and the scan of lines 297-303 takes id 0 for the mark of
  an empty slot: the second receipt is stored, forwarded and delivered again. The last
  three parts show two entries with the same originator and id: the frame \<open>frame_id5\<close>,
  then \<open>frame_id0\<close>, then \<open>frame_id5\<close> again leave originator \<open>mac_a\<close> with id 5 in
  the first two slots. (For a nonzero id the second receipt is dropped: \<open>stored_is_seen\<close>.)
\<close>

theorem C1_id_zero_not_deduplicated:
  "receiveData fresh_node mac_b frame_id0 30 =
     Inr (with_store fresh_node [\<lparr>originator = mac_a, sender = mac_b, msg_id = 0\<rparr>],
          [SendMessage None frame_id0, ReceiveCallback ''hi'' True mac_a]) \<and>
   receiveData (with_store fresh_node [\<lparr>originator = mac_a, sender = mac_b, msg_id = 0\<rparr>])
       mac_c frame_id0 30 =
     Inr (with_store fresh_node [\<lparr>originator = mac_a, sender = mac_c, msg_id = 0\<rparr>],
          [SendMessage None frame_id0, ReceiveCallback ''hi'' True mac_a]) \<and>
   receiveData fresh_node mac_b frame_id5 30 =
     Inr (with_store fresh_node [\<lparr>originator = mac_a, sender = mac_b, msg_id = 5\<rparr>],
          [SendMessage None frame_id5, ReceiveCallback ''hi'' True mac_a]) \<and>
   receiveData (with_store fresh_node [\<lparr>originator = mac_a, sender = mac_b, msg_id = 5\<rparr>])
       mac_b frame_id0 30 =
     Inr (with_store fresh_node [\<lparr>originator = mac_a, sender = mac_b, msg_id = 0\<rparr>,
                                 \<lparr>originator = mac_a, sender = mac_b, msg_id = 5\<rparr>],
          [SendMessage None frame_id0, ReceiveCallback ''hi'' True mac_a]) \<and>
   receiveData (with_store fresh_node [\<lparr>originator = mac_a, sender = mac_b, msg_id = 0\<rparr>,
                                       \<lparr>originator = mac_a, sender = mac_b, msg_id = 5\<rparr>])
       mac_c frame_id5 30 =
     Inr (with_store fresh_node [\<lparr>originator = mac_a, sender = mac_c, msg_id = 5\<rparr>,
                                 \<lparr>originator = mac_a, sender = mac_b, msg_id = 5\<rparr>],
          [SendMessage None frame_id5, ReceiveCallback ''hi'' True mac_a])"
  by code_simp

text \<open>
  Claim C3, evaluated on the code. Eleven messages with distinct ids (1 to 9, then 0, then
  11) from one originator are stored one after the other in a store of capacity 10. The
  claim has the first one (id 1) gone afterwards. The code writes the message with id 0 in
  front, after which the scan finds no occupied slot at all, and the message with id 11
  overwrites it: the newest entry is lost and the oldest, with id 1, is still stored.
  (When all ids are nonzero the oldest entry is the one lost: \<open>full_store_loses_last\<close>.)
\<close>

theorem C3_id_zero_evicts_newest:
  "map msg_id (stored_after [1, 2, 3, 4, 5, 6, 7, 8, 9, 0]) = [0, 9, 8, 7, 6, 5, 4, 3, 2, 1] \<and>
   map msg_id (stored_after [1, 2, 3, 4, 5, 6, 7, 8, 9, 0, 11]) =
     [11, 9, 8, 7, 6, 5, 4, 3, 2, 1] \<and>
   \<lparr>originator = mac_a, sender = mac_b, msg_id = 1\<rparr>
     \<in> set (stored_after [1, 2, 3, 4, 5, 6, 7, 8, 9, 0, 11]) \<and>
   \<lparr>originator = mac_a, sender = mac_b, msg_id = 0\<rparr>
     \<notin> set (stored_after [1, 2, 3, 4, 5, 6, 7, 8, 9, 0, 11])"
  by code_simp

section \<open>Delivery to the user and the node's own messages\<close>

lemma sendMessage_broadcast_text:
  "sendMessage t (broadcast_text msg orig mid) = [SendMessage t (broadcast_text msg orig mid)]"
  by (simp add: sendMessage_def c_str_plain broadcast_text_no_nul)

lemma sendMessage_targeted_text:
  "sendMessage t (targeted_text msg orig targ mid) =
     [SendMessage t (targeted_text msg orig targ mid)]"
  by (simp add: sendMessage_def c_str_plain targeted_text_no_nul)

text \<open>What sendBroadcast and sendTargeted do: one frame to the radio if the frame fits
  the buffer, the overrun otherwise.\<close>

lemma sendBroadcast_eq:
  "sendBroadcast msg orig mid =
     (if length (broadcast_text msg orig mid) < MAX_MSG_LEN
      then Inr [SendMessage None (broadcast_text msg orig mid)]
      else Inl BufferOverflow)"
  by (simp add: sendBroadcast_def broadcast_data_def write_buffer_def sendMessage_broadcast_text)

lemma sendTargeted_eq:
  "sendTargeted st msg orig targ mid =
     (if length (targeted_text msg orig targ mid) < MAX_MSG_LEN
      then Inr [SendMessage (snd (route_scan (past_store st) (message_store st) (peers st) targ 0))
                  (targeted_text msg orig targ mid)]
      else Inl BufferOverflow)"
  by (simp add: sendTargeted_def targeted_data_def write_buffer_def sendMessage_targeted_text)

lemma forward_eq:
  "forward st f =
     (if message_type f = 1 \<or> message_type f = 2 then
        (if length (frame_text f) < MAX_MSG_LEN
         then Inr [SendMessage
                     (if message_type f = 1 then None
                      else snd (route_scan (past_store st) (message_store st) (peers st)
                                  (target f) 0))
                     (frame_text f)]
         else Inl BufferOverflow)
      else Inr [])"
  by (simp add: forward_def frame_text_def sendBroadcast_eq sendTargeted_eq)






text \<open>The second argument that the code gives the callback: \<open>false\<close> for a frame whose
  target is this node (line 325), \<open>true\<close> for every other frame (line 336).\<close>

lemma deliver_flag:
  "deliver st f = Inr events \<Longrightarrow> ReceiveCallback msg flag orig \<in> set events \<Longrightarrow>
   flag = (target f \<noteq> self st)"
  by (auto simp: deliver_def forward_eq split: if_splits)






section \<open>The route scan of sendTargeted\<close>

lemma read_store_in: "i < length store \<Longrightarrow> read_store past store i = store ! i"
  by (simp add: read_store_def lookup_def)

lemma read_store_out: "length store \<le> i \<Longrightarrow> read_store past store i = past"
  by (simp add: read_store_def lookup_def)

text \<open>When every entry of the store has a nonzero id and none gives a route, the guard
  reads the array at the indices 0 to \<open>STORED_MESSAGES\<close>, the last one past its end.\<close>

lemma route_scan_overread:
  assumes "length store = STORED_MESSAGES"
    and "\<forall>j < STORED_MESSAGES. 0 < msg_id (store ! j)"
    and "\<forall>j < STORED_MESSAGES.
           \<not> ((originator (store ! j) = targ \<or> sender (store ! j) = targ)
              \<and> sender (store ! j) \<in> set ps)"
    and "i \<le> STORED_MESSAGES"
  shows "route_scan past store ps targ i = ([i..<Suc STORED_MESSAGES], None)"
  using assms
proof (induction past store ps targ i rule: route_scan.induct)
  case (1 past store ps targ i)
  show ?case
  proof (cases "i < STORED_MESSAGES")
    case True
    have r: "read_store past store i = store ! i"
      using True "1.prems"(1) by (simp add: read_store_in)
    have g: "0 < msg_id (store ! i)"
      and n: "\<not> ((originator (store ! i) = targ \<or> sender (store ! i) = targ)
                \<and> sender (store ! i) \<in> set ps)"
      using True "1.prems"(2,3) by blast+
    have ih: "route_scan past store ps targ (i + 1) = ([i + 1..<Suc STORED_MESSAGES], None)"
      using "1.IH" [unfolded r] g n True "1.prems" by simp
    have "[i..<Suc STORED_MESSAGES] = i # [i + 1..<Suc STORED_MESSAGES]"
      using True by (simp add: upt_conv_Cons)
    then show ?thesis
      using True g n ih by (subst route_scan.simps) (simp add: r)
  next
    case False
    with "1.prems"(4) have e: "i = STORED_MESSAGES" by simp
    then show ?thesis
      by (subst route_scan.simps) simp
  qed
qed

text \<open>
  Claim C9, evaluated on the code. The node has received ten messages, so that all
  \<open>STORED_MESSAGES\<close> entries of its store hold a nonzero id, and it sends a targeted
  message to \<open>mac_c\<close>, to which no entry gives a route. The claim has the guard of the
  loop read \<open>message_store[i]\<close> for \<open>i < STORED_MESSAGES\<close> only; the code reads the
  indices 0 to 10, and the lookup at index 10 is outside the store. The frame is then
  broadcast. (\<open>route_scan_overread\<close> is the general fact.)
\<close>

theorem C9_guard_reads_past_the_store:
  "length (message_store full_node) = STORED_MESSAGES \<and>
   fst (route_scan (past_store full_node) (message_store full_node) (peers full_node) mac_c 0)
     = [0, 1, 2, 3, 4, 5, 6, 7, 8, 9, 10] \<and>
   lookup (message_store full_node) 10 = None \<and>
   sendTargeted full_node ''hi'' mac_self mac_c 1 =
     Inr [SendMessage None ''2,1,1,1,1,1,1,4,4,4,4,4,4,1,hi'']"
  by code_simp

text \<open>The result of the scan: the sender of the first of the scanned slots, in the
  order of the store, that gives a route. The value read past the end of the store plays
  no part. A slot behind a stored message with id 0 is not scanned.\<close>

lemma route_scan_find:
  assumes "length store = STORED_MESSAGES" "i \<le> STORED_MESSAGES"
  shows "snd (route_scan past store ps targ i) =
     map_option sender
       (find (gives_route ps targ) (takeWhile (\<lambda>e. 0 < msg_id e) (drop i store)))"
  using assms
proof (induction past store ps targ i rule: route_scan.induct)
  case (1 past store ps targ i)
  show ?case
  proof (cases "i < STORED_MESSAGES")
    case True
    then have r: "read_store past store i = store ! i"
      using "1.prems"(1) by (simp add: read_store_in)
    have d: "drop i store = store ! i # drop (i + 1) store"
      using True "1.prems"(1) by (simp add: Cons_nth_drop_Suc)
    show ?thesis
    proof (cases "0 < msg_id (store ! i)")
      case occ: True
      show ?thesis
      proof (cases "gives_route ps targ (store ! i)")
        case True
        then show ?thesis
          using \<open>i < STORED_MESSAGES\<close> occ d
          by (subst route_scan.simps) (simp add: r gives_route_def)
      next
        case False
        have "snd (route_scan past store ps targ i) =
              snd (route_scan past store ps targ (i + 1))"
          using \<open>i < STORED_MESSAGES\<close> occ False
          by (subst route_scan.simps) (auto simp: r gives_route_def)
        also have "\<dots> = map_option sender (find (gives_route ps targ)
            (takeWhile (\<lambda>e. 0 < msg_id e) (drop (i + 1) store)))"
        proof -
          have nf: "\<not> ((originator (store ! i) = targ \<or> sender (store ! i) = targ)
                      \<and> sender (store ! i) \<in> set ps)"
            using False by (simp add: gives_route_def)
          show ?thesis
            using "1.IH" [unfolded r] \<open>i < STORED_MESSAGES\<close> occ nf "1.prems" by simp
        qed
        finally show ?thesis
          using occ False d by simp
      qed
    next
      case False
      then show ?thesis
        using d by (subst route_scan.simps) (simp add: r)
    qed
  next
    case False
    then have "drop i store = []"
      using "1.prems" by simp
    then show ?thesis
      using False by (subst route_scan.simps) simp
  qed
qed

text \<open>
  Claim C6, evaluated on the code. The node has \<open>mac_b\<close> as its radio peer and receives
  from \<open>mac_b\<close> a frame of originator \<open>mac_a\<close> with message id 0; it then sends a
  targeted message to \<open>mac_a\<close>. The ledger entry that the receipt has made has the target
  as its originator and the active peer \<open>mac_b\<close> as its sender, so the claim has the frame
  go to \<open>mac_b\<close> alone. The guard of line 189 takes the id 0 of the entry for the mark
  of an empty slot and the scan ends at once: the frame goes to all peers. With the same
  frame but message id 5 (the last two parts) the frame does go to \<open>mac_b\<close>.
\<close>

theorem C6_id_zero_entry_gives_no_route:
  "peers peered_node = [mac_b] \<and>
   receiveData peered_node mac_b frame_id0 30 =
     Inr (with_store peered_node [\<lparr>originator = mac_a, sender = mac_b, msg_id = 0\<rparr>],
          [SendMessage None frame_id0, ReceiveCallback ''hi'' True mac_a]) \<and>
   send_to (with_store peered_node [\<lparr>originator = mac_a, sender = mac_b, msg_id = 0\<rparr>])
       ''hi'' mac_a =
     Inr ((with_store peered_node [\<lparr>originator = mac_a, sender = mac_b, msg_id = 0\<rparr>])
            \<lparr>last_message_id := 1\<rparr>,
          [SendMessage None ''2,1,1,1,1,1,1,2,2,2,2,2,2,1,hi'']) \<and>
   receiveData peered_node mac_b frame_id5 30 =
     Inr (with_store peered_node [\<lparr>originator = mac_a, sender = mac_b, msg_id = 5\<rparr>],
          [SendMessage None frame_id5, ReceiveCallback ''hi'' True mac_a]) \<and>
   send_to (with_store peered_node [\<lparr>originator = mac_a, sender = mac_b, msg_id = 5\<rparr>])
       ''hi'' mac_a =
     Inr ((with_store peered_node [\<lparr>originator = mac_a, sender = mac_b, msg_id = 5\<rparr>])
            \<lparr>last_message_id := 1\<rparr>,
          [SendMessage (Some mac_b) ''2,1,1,1,1,1,1,2,2,2,2,2,2,1,hi''])"
  by code_simp
section \<open>Discovery\<close>

text \<open>The score stays within the range of an \<open>int16_t\<close>.\<close>

lemma foldl_bonus_bounds:
  "a \<le> foldl (\<lambda>sc i. if P i then sc + 20 else sc) a xs \<and>
   foldl (\<lambda>sc i. if P i then sc + 20 else sc) a xs \<le> a + 20 * int (length xs)"
proof (induction xs arbitrary: a)
  case Nil
  then show ?case by simp
next
  case (Cons x xs)
  show ?case
    using Cons.IH [of "a + 20"] Cons.IH [of a] by auto
qed

lemma ap_score_bounds: "0 \<le> ap_score store ap \<and> ap_score store ap \<le> 328"
proof -
  define base where "base = 128 - \<bar>sint (rssi ap)\<bar>"
  have "- 128 \<le> sint (rssi ap)" "sint (rssi ap) < 128"
    using sint_ge [of "rssi ap"] sint_lt [of "rssi ap"] by simp_all
  then have b: "0 \<le> base" "base \<le> 128"
    by (simp_all add: base_def)
  have "base \<le> ap_score store ap \<and> ap_score store ap \<le> base + 20 * int (length [0..<STORED_MESSAGES])"
    unfolding ap_score_def base_def [symmetric] by (rule foldl_bonus_bounds)
  then have "base \<le> ap_score store ap \<and> ap_score store ap \<le> base + 200"
    by (simp add: STORED_MESSAGES_def)
  then show ?thesis
    using b by linarith
qed

lemma foldl_scan_ap_filter:
  "foldl (scan_ap store) ps aps =
   foldl (scan_ap store) ps (filter (\<lambda>ap. take 4 (ssid ap) = ''ESP_'') aps)"
  by (induction aps arbitrary: ps) (simp_all add: scan_ap_def)

text \<open>The slots of the working set with a positive score hold addresses of a set \<open>X\<close>
  as long as every access point with the prefix has its address in \<open>X\<close>.\<close>

lemma scan_ap_slots:
  assumes "length ps = MAX_PEERS"
    and "\<forall>j < MAX_PEERS. 0 < score (ps ! j) \<longrightarrow> mac (ps ! j) \<in> X"
    and "take 4 (ssid ap) = ''ESP_'' \<longrightarrow> bssid ap \<in> X"
  shows "length (scan_ap store ps ap) = MAX_PEERS \<and>
         (\<forall>j < MAX_PEERS. 0 < score (scan_ap store ps ap ! j) \<longrightarrow>
            mac (scan_ap store ps ap ! j) \<in> X)"
proof (cases "take 4 (ssid ap) = ''ESP_'' \<and> 0 \<le> find_candidate ps (ap_score store ap) 0 (- 1) 0")
  case True
  let ?c = "nat (find_candidate ps (ap_score store ap) 0 (- 1) 0)"
  let ?new = "\<lparr>mac = bssid ap, score = ap_score store ap\<rparr>"
  have eq: "scan_ap store ps ap = ps[?c := ?new]"
    using True by (simp add: scan_ap_def Let_def)
  have "mac (ps[?c := ?new] ! j) \<in> X"
    if "j < MAX_PEERS" "0 < score (ps[?c := ?new] ! j)" for j
  proof (cases "j = ?c")
    case True
    then show ?thesis
      using that assms(1,3) \<open>take 4 (ssid ap) = ''ESP_'' \<and> _\<close> by simp
  next
    case False
    then show ?thesis using that assms(2) by simp
  qed
  then show ?thesis using eq assms(1) by simp
next
  case False
  then have "scan_ap store ps ap = ps"
    by (auto simp: scan_ap_def Let_def)
  then show ?thesis using assms by simp
qed

lemma scan_fold_slots:
  assumes "length ps = MAX_PEERS"
    and "\<forall>j < MAX_PEERS. 0 < score (ps ! j) \<longrightarrow> mac (ps ! j) \<in> X"
    and "\<forall>ap \<in> set aps. take 4 (ssid ap) = ''ESP_'' \<longrightarrow> bssid ap \<in> X"
  shows "length (foldl (scan_ap store) ps aps) = MAX_PEERS \<and>
         (\<forall>j < MAX_PEERS. 0 < score (foldl (scan_ap store) ps aps ! j) \<longrightarrow>
            mac (foldl (scan_ap store) ps aps ! j) \<in> X)"
  using assms
proof (induction aps arbitrary: ps)
  case Nil
  then show ?case by simp
next
  case (Cons ap aps)
  have step: "length (scan_ap store ps ap) = MAX_PEERS \<and>
         (\<forall>j < MAX_PEERS. 0 < score (scan_ap store ps ap ! j) \<longrightarrow>
            mac (scan_ap store ps ap ! j) \<in> X)"
    using Cons.prems by (intro scan_ap_slots) simp_all
  show ?case
    using Cons.IH [of "scan_ap store ps ap"] step Cons.prems(3) by simp
qed

lemma scan_all_slots:
  "j < MAX_PEERS \<Longrightarrow> 0 < score (scan_all store aps ! j) \<Longrightarrow>
   mac (scan_all store aps ! j) \<in> bssid ` {ap \<in> set aps. take 4 (ssid ap) = ''ESP_''}"
  using scan_fold_slots [of "replicate MAX_PEERS empty_peer"
      "bssid ` {ap \<in> set aps. take 4 (ssid ap) = ''ESP_''}" aps store]
  by (auto simp: scan_all_def empty_peer_def)

lemma set_fold_add_peer:
  "m \<in> set (foldl (add_peer peer_store) ps idxs) \<Longrightarrow>
   m \<in> set ps \<or> (\<exists>i \<in> set idxs. 0 < score (peer_store ! i) \<and> m = mac (peer_store ! i))"
  by (induction idxs arbitrary: ps) (fastforce simp: add_peer_def split: if_splits)+

text \<open>
  Claim C10. Only scan results whose SSID starts with the four characters \<open>ESP_\<close> count in
  a discovery cycle. The working set and the node after the callback are the same whether
  the other results are in the scan list or not, whatever their signal strength (so no
  score of theirs plays a part and they take no slot), and every address that the cycle
  adds to the radio peers is the address of a scan result that has the prefix.
\<close>

theorem C10_only_ESP_prefix:
  "scan_all (message_store st) arg =
     scan_all (message_store st) (filter (\<lambda>ap. take 4 (ssid ap) = ''ESP_'') arg) \<and>
   scanDoneCallback st arg status =
     scanDoneCallback st (filter (\<lambda>ap. take 4 (ssid ap) = ''ESP_'') arg) status \<and>
   (\<forall>m. m \<in> set (peers (scanDoneCallback st arg status)) \<and> m \<notin> set (peers st) \<longrightarrow>
        (\<exists>ap \<in> set arg. take 4 (ssid ap) = ''ESP_'' \<and> bssid ap = m))"
proof (intro conjI)
  show w: "scan_all (message_store st) arg =
     scan_all (message_store st) (filter (\<lambda>ap. take 4 (ssid ap) = ''ESP_'') arg)"
    using foldl_scan_ap_filter [of "message_store st" "replicate MAX_PEERS empty_peer" arg]
    by (simp add: scan_all_def)
  show "scanDoneCallback st arg status =
     scanDoneCallback st (filter (\<lambda>ap. take 4 (ssid ap) = ''ESP_'') arg) status"
    using w by (simp add: scanDoneCallback_def)
  show "\<forall>m. m \<in> set (peers (scanDoneCallback st arg status)) \<and> m \<notin> set (peers st) \<longrightarrow>
        (\<exists>ap \<in> set arg. take 4 (ssid ap) = ''ESP_'' \<and> bssid ap = m)"
  proof (intro allI impI)
    fix m
    assume a: "m \<in> set (peers (scanDoneCallback st arg status)) \<and> m \<notin> set (peers st)"
    then have ok: "status = OK"
      by (auto simp: scanDoneCallback_def split: if_splits)
    let ?ps = "scan_all (message_store st) arg"
    from a ok have "m \<in> set (foldl (add_peer ?ps) (peers st) [0..<MAX_PEERS])"
      by (simp add: scanDoneCallback_def Let_def purge_peers_def)
    with a obtain i where i: "i < MAX_PEERS" "0 < score (?ps ! i)" "m = mac (?ps ! i)"
      using set_fold_add_peer [of m ?ps "peers st" "[0..<MAX_PEERS]"] by auto
    then show "\<exists>ap \<in> set arg. take 4 (ssid ap) = ''ESP_'' \<and> bssid ap = m"
      using scan_all_slots [of i "message_store st" arg] by auto
  qed
qed

text \<open>A scan that finds a router with a strong signal and one ESP8266: the result is
  that of the scan without the router, and the ESP8266 alone becomes a peer.\<close>

theorem C10_only_ESP_prefix_witness:
  "scanDoneCallback fresh_node [router_ap, esp_ap] OK =
     scanDoneCallback fresh_node [esp_ap] OK \<and>
   bssid esp_ap \<in> set (peers (scanDoneCallback fresh_node [router_ap, esp_ap] OK)) \<and>
   bssid esp_ap \<notin> set (peers fresh_node) \<and>
   bssid router_ap \<notin> set (peers (scanDoneCallback fresh_node [router_ap, esp_ap] OK)) \<and>
   (\<exists>ap \<in> set [router_ap, esp_ap]. take 4 (ssid ap) = ''ESP_'' \<and> bssid ap = bssid esp_ap)"
proof -
  have p: "peers (scanDoneCallback fresh_node [router_ap, esp_ap] OK) = [MAC 9 9 9 9 9 9]"
    by code_simp
  have f: "filter (\<lambda>ap. take 4 (ssid ap) = ''ESP_'') [router_ap, esp_ap] = [esp_ap]"
    by (simp add: router_ap_def esp_ap_def)
  have b: "bssid esp_ap = MAC 9 9 9 9 9 9" "bssid router_ap = MAC 7 7 7 7 7 7"
    "peers fresh_node = []"
    by (simp_all add: esp_ap_def router_ap_def fresh_node_def boot_def)
  show ?thesis
    using C10_only_ESP_prefix [of fresh_node "[router_ap, esp_ap]" OK] p f b by simp
qed

subsection \<open>A full working set\<close>

text \<open>
  \<open>worst_score\<close> starts at 0 and a slot is passed over as occupied only if its score is
  above 0, so the test \<open>peer_store[i].score < worst_score\<close> of line 88 holds for no
  occupied slot: once every slot is occupied, no candidate is chosen.
\<close>

lemma find_candidate_full:
  "\<forall>j < MAX_PEERS. 0 < score (peer_store ! j) \<Longrightarrow> worst_score \<le> 0 \<Longrightarrow>
   find_candidate peer_store sc i candidate worst_score = candidate"
proof (induction peer_store sc i candidate worst_score rule: find_candidate.induct)
  case (1 peer_store sc i candidate worst_score)
  show ?case
  proof (cases "i < MAX_PEERS")
    case True
    with "1.prems" have pos: "0 < score (peer_store ! i)" by simp
    with "1.prems" have nw: "\<not> score (peer_store ! i) < worst_score" by simp
    have "find_candidate peer_store sc i candidate worst_score =
          find_candidate peer_store sc (i + 1) candidate worst_score"
      using True pos nw by (subst find_candidate.simps) simp
    also have "\<dots> = candidate"
      using "1.IH"(2) [OF True] pos nw "1.prems" by simp
    finally show ?thesis .
  next
    case False
    then show ?thesis by (subst find_candidate.simps) simp
  qed
qed

lemma scan_ap_full:
  "\<forall>j < MAX_PEERS. 0 < score (peer_store ! j) \<Longrightarrow> scan_ap store peer_store ap = peer_store"
  by (simp add: scan_ap_def Let_def find_candidate_full)

text \<open>
  Claim C4, evaluated on the code. The scan finds the ten access points of \<open>ten_aps\<close>,
  which fill the working set with score 78 each, and then \<open>strong_ap\<close>, whose score 118
  is strictly above the worst score of the set. The claim has \<open>strong_ap\<close> replace the
  worst entry; the code leaves the working set as it is, and \<open>strong_ap\<close> does not become
  a radio peer. (\<open>scan_ap_full\<close> is the general fact.)
\<close>

theorem C4_full_table_never_replaces:
  "scan_all (message_store fresh_node) (ten_aps @ [strong_ap]) =
     scan_all (message_store fresh_node) ten_aps \<and>
   map score (scan_all (message_store fresh_node) ten_aps) =
     [78, 78, 78, 78, 78, 78, 78, 78, 78, 78] \<and>
   ap_score (message_store fresh_node) strong_ap = 118 \<and>
   peers (scanDoneCallback fresh_node (ten_aps @ [strong_ap]) OK) = map bssid ten_aps"
  by code_simp
end
